theory Spec2Isabelle
  imports Main "HOL-Library.Word" "HOL-Library.Sublist" "HOL-Library.Multiset"
begin

unbundle bit_operations_syntax

section \<open>The instruction-counting pintool (src/jit-pintool/clrjit\_inscount.cpp)\<close>

text \<open>
  The tool is built either for TARGET\_IA32, where \<open>ADDRINT\<close> is a 32-bit unsigned integer
  and the per-thread counter lives in two tool registers, or for a 64-bit target, where
  \<open>ADDRINT\<close> is a 64-bit unsigned integer and one tool register holds the counter. Both
  builds are modelled; the definitions of the IA32 build carry the suffix \<open>_IA32\<close> where the
  source uses the same name in both branches of the \<open>#ifdef\<close>.
\<close>

type_synonym ADDRINT32 = "32 word"
type_synonym ADDRINT64 = "64 word"
type_synonym UINT32 = "32 word"
type_synonym UINT64 = "64 word"

subsection \<open>Analysis routines\<close>

definition DoCountLow :: "ADDRINT32 \<Rightarrow> ADDRINT32 \<Rightarrow> ADDRINT32" where
  "DoCountLow countLow numInsts = countLow + numInsts"

text \<open>The comparison is returned as an \<open>ADDRINT\<close>: 1 for true, 0 for false.\<close>

definition OverflowedLow :: "ADDRINT32 \<Rightarrow> ADDRINT32 \<Rightarrow> ADDRINT32" where
  "OverflowedLow countLow numInsts = (if countLow < numInsts then 1 else 0)"

definition DoCountHigh :: "ADDRINT32 \<Rightarrow> ADDRINT32" where
  "DoCountHigh countHigh = countHigh + 1"

definition ReadInsCount_IA32 :: "ADDRINT32 \<Rightarrow> ADDRINT32 \<Rightarrow> UINT64" where
  "ReadInsCount_IA32 countLow countHigh = push_bit 32 (ucast countHigh) OR ucast countLow"

definition DoCount :: "ADDRINT64 \<Rightarrow> ADDRINT64 \<Rightarrow> ADDRINT64" where
  "DoCount cnt numInsts = cnt + numInsts"

definition ReadInsCount :: "ADDRINT64 \<Rightarrow> UINT64" where
  "ReadInsCount cnt = cnt"

subsection \<open>Thread contexts\<close>

text \<open>
  A thread context is read and written only at the claimed tool registers, so it is
  modelled by the values of those registers.
\<close>

record CONTEXT_IA32 =
  InsCountLowReg :: ADDRINT32
  InsCountHighReg :: ADDRINT32

record CONTEXT =
  InsCountReg :: ADDRINT64

definition ThreadStart_IA32 :: "CONTEXT_IA32 \<Rightarrow> CONTEXT_IA32" where
  "ThreadStart_IA32 ctxt = ctxt\<lparr>InsCountLowReg := 0, InsCountHighReg := 0\<rparr>"

definition ThreadStart :: "CONTEXT \<Rightarrow> CONTEXT" where
  "ThreadStart ctxt = ctxt\<lparr>InsCountReg := 0\<rparr>"

text \<open>
  What the three calls inserted before a basic block of \<open>numInsts\<close> instructions do to
  the context on IA32: \<open>DoCountLow\<close> writes its result back to the low register, the
  if-call \<open>OverflowedLow\<close> then reads the updated low register, and the then-call
  \<open>DoCountHigh\<close> runs exactly when the if-call returned a non-zero value.
\<close>

definition run_bbl_IA32 :: "ADDRINT32 \<Rightarrow> CONTEXT_IA32 \<Rightarrow> CONTEXT_IA32" where
  "run_bbl_IA32 numInsts ctxt =
     (let c1 = ctxt\<lparr>InsCountLowReg := DoCountLow (InsCountLowReg ctxt) numInsts\<rparr>
      in if OverflowedLow (InsCountLowReg c1) numInsts \<noteq> 0
         then c1\<lparr>InsCountHighReg := DoCountHigh (InsCountHighReg c1)\<rparr>
         else c1)"

definition run_bbl :: "ADDRINT64 \<Rightarrow> CONTEXT \<Rightarrow> CONTEXT" where
  "run_bbl numInsts ctxt = ctxt\<lparr>InsCountReg := DoCount (InsCountReg ctxt) numInsts\<rparr>"

subsection \<open>Process-wide state\<close>

text \<open>
  The globals of the tool: the total, the registered address ranges, the value of the
  \<open>quiet\<close> knob, and the lines written to the error stream so far. The last field records,
  by image name, where \<open>ImageLoad\<close> inserted the call of \<open>ReadInsCount\<close>. The type
  parameter is the type \<open>ADDRINT\<close> of the build.
\<close>

record 'addrint tool_state =
  TotalCount :: UINT64
  InstrumentRanges :: "('addrint \<times> 'addrint) list"
  QuietKnob :: bool
  cerr :: "string list"
  ReadInsCountCalls :: "string list"

definition init_state :: "bool \<Rightarrow> 'a tool_state" where
  "init_state quiet =
     \<lparr>TotalCount = 0, InstrumentRanges = [], QuietKnob = quiet, cerr = [],
      ReadInsCountCalls = []\<rparr>"

subsection \<open>Thread exit\<close>

text \<open>
  \<open>ThreadFini\<close> runs between \<open>PIN_GetLock\<close> and \<open>PIN_ReleaseLock\<close>, so the exits of
  different threads are serialised: each is one step on the state.
\<close>

definition ThreadFini_IA32 ::
    "CONTEXT_IA32 \<Rightarrow> ADDRINT32 tool_state \<Rightarrow> ADDRINT32 tool_state" where
  "ThreadFini_IA32 ctxt s =
     (let low = InsCountLowReg ctxt; high = InsCountHighReg ctxt
      in s\<lparr>TotalCount := TotalCount s + (push_bit 32 (ucast high) OR ucast low)\<rparr>)"

definition ThreadFini :: "CONTEXT \<Rightarrow> ADDRINT64 tool_state \<Rightarrow> ADDRINT64 tool_state" where
  "ThreadFini ctxt s = s\<lparr>TotalCount := TotalCount s + InsCountReg ctxt\<rparr>"

subsection \<open>The JIT-module heuristic\<close>

datatype platform = TARGET_WINDOWS | TARGET_LINUX | TARGET_MAC

definition pathSep :: "platform \<Rightarrow> string" where
  "pathSep p = (case p of TARGET_WINDOWS \<Rightarrow> [CHR 0x5C] | TARGET_LINUX \<Rightarrow> ''/'' | TARGET_MAC \<Rightarrow> ''/'')"

text \<open>
  The two searches of \<open>std::string\<close> that the heuristic calls. \<open>matches_at s pat i\<close>: the
  characters of \<open>pat\<close> stand in \<open>s\<close> from index \<open>i\<close>. \<open>find\<close> returns the least such index
  that is at least \<open>pos\<close>, \<open>rfind\<close> (with its default start) the greatest one; \<open>None\<close> is
  \<open>std::string::npos\<close>.
\<close>

definition matches_at :: "string \<Rightarrow> string \<Rightarrow> nat \<Rightarrow> bool" where
  "matches_at s pat i \<longleftrightarrow> i + length pat \<le> length s \<and> take (length pat) (drop i s) = pat"

definition string_find :: "string \<Rightarrow> string \<Rightarrow> nat \<Rightarrow> nat option" where
  "string_find s pat pos = List.find (matches_at s pat) [pos ..< Suc (length s)]"

definition string_rfind :: "string \<Rightarrow> string \<Rightarrow> nat option" where
  "string_rfind s pat = List.find (matches_at s pat) (rev [0 ..< Suc (length s)])"

definition IsJitImage :: "platform \<Rightarrow> string \<Rightarrow> bool" where
  "IsJitImage p name =
     (let fileNameStart = (case string_rfind name (pathSep p) of None \<Rightarrow> 0 | Some i \<Rightarrow> Suc i)
      in string_find name ''clrjit'' fileNameStart \<noteq> None)"

text \<open>
  The words of the specification: the basename is what follows the last path separator (the
  whole name when there is none), and the module is the monitored JIT when the term occurs
  in the basename as a contiguous substring, which is \<open>sublist\<close> of the library.
\<close>

definition basename :: "platform \<Rightarrow> string \<Rightarrow> string" where
  "basename p name = rev (takeWhile (\<lambda>c. [c] \<noteq> pathSep p) (rev name))"

definition jit_in_basename :: "platform \<Rightarrow> string \<Rightarrow> bool" where
  "jit_in_basename p name \<longleftrightarrow> sublist ''clrjit'' (basename p name)"

subsection \<open>Image load and unload\<close>

text \<open>
  An image, as far as the tool looks at it: its name, its address span, and the names of its
  routines (for \<open>RTN_FindByName\<close>).
\<close>

record 'addrint IMG =
  IMG_Name :: string
  IMG_LowAddress :: 'addrint
  IMG_HighAddress :: 'addrint
  IMG_Rtns :: "string list"

definition RTN_FindByName :: "'a IMG \<Rightarrow> string \<Rightarrow> string option" where
  "RTN_FindByName img name = (if name \<in> set (IMG_Rtns img) then Some name else None)"

definition RTN_Valid :: "string option \<Rightarrow> bool" where
  "RTN_Valid rtn \<longleftrightarrow> rtn \<noteq> None"

definition ImageLoad :: "platform \<Rightarrow> 'a IMG \<Rightarrow> 'a tool_state \<Rightarrow> 'a tool_state" where
  "ImageLoad p img s =
     (let s1 = (if IsJitImage p (IMG_Name img)
                then s\<lparr>InstrumentRanges :=
                         InstrumentRanges s @ [(IMG_LowAddress img, IMG_HighAddress img)]\<rparr>
                else s);
          getInsCount = RTN_FindByName img ''Instrumentor_GetInsCount''
      in if RTN_Valid getInsCount
         then s1\<lparr>ReadInsCountCalls := ReadInsCountCalls s1 @ [IMG_Name img]\<rparr>
         else s1)"

text \<open>
  \<open>std::find\<close> over the vector, with iterators as indices: the index of the first element
  equal to \<open>v\<close>, or the length of the list (\<open>end()\<close>) when there is none. \<open>erase\<close> removes
  the element at an index.
\<close>

fun std_find :: "'b list \<Rightarrow> 'b \<Rightarrow> nat" where
  "std_find [] v = 0"
| "std_find (x # xs) v = (if x = v then 0 else Suc (std_find xs v))"

definition erase :: "'b list \<Rightarrow> nat \<Rightarrow> 'b list" where
  "erase xs it = take it xs @ drop (Suc it) xs"

definition ImageUnload :: "platform \<Rightarrow> 'a IMG \<Rightarrow> 'a tool_state \<Rightarrow> 'a tool_state" where
  "ImageUnload p img s =
     (if IsJitImage p (IMG_Name img)
      then (let it = std_find (InstrumentRanges s) (IMG_LowAddress img, IMG_HighAddress img)
            in if it \<noteq> length (InstrumentRanges s)
               then s\<lparr>InstrumentRanges := erase (InstrumentRanges s) it\<rparr>
               else s)
      else s)"

subsection \<open>Trace instrumentation\<close>

text \<open>
  A trace is its start address and its basic blocks in order, from \<open>TRACE_BblHead\<close> along
  \<open>BBL_Next\<close>; of a basic block only the number of instructions is read. An inserted
  call is recorded with its insertion point, its analysis routine and its \<open>IARG_ADDRINT\<close>
  argument, if it has one.
\<close>

record BBL =
  BBL_NumIns :: UINT32

record 'addrint TRACE =
  TRACE_Address :: 'addrint
  TRACE_Bbls :: "BBL list"

datatype IPOINT = IPOINT_BEFORE | IPOINT_ANYWHERE

datatype AFUNPTR = AFUN_DoCountLow | AFUN_OverflowedLow | AFUN_DoCountHigh | AFUN_DoCount

datatype 'addrint inserted_call =
    BBL_InsertCall IPOINT AFUNPTR "'addrint option"
  | BBL_InsertIfCall IPOINT AFUNPTR "'addrint option"
  | BBL_InsertThenCall IPOINT AFUNPTR "'addrint option"

text \<open>The first loop of \<open>Trace\<close>: is the jump to \<open>Found\<close> taken?\<close>

fun Found :: "('a :: len) word \<Rightarrow> ('a word \<times> 'a word) list \<Rightarrow> bool" where
  "Found addr [] = False"
| "Found addr (p # ps) = (if addr \<ge> fst p \<and> addr < snd p then True else Found addr ps)"

definition instrument_bbl_IA32 :: "BBL \<Rightarrow> ADDRINT32 inserted_call list" where
  "instrument_bbl_IA32 bbl =
     [BBL_InsertCall IPOINT_BEFORE AFUN_DoCountLow (Some (BBL_NumIns bbl)),
      BBL_InsertIfCall IPOINT_BEFORE AFUN_OverflowedLow (Some (BBL_NumIns bbl)),
      BBL_InsertThenCall IPOINT_BEFORE AFUN_DoCountHigh None]"

definition instrument_bbl :: "BBL \<Rightarrow> ADDRINT64 inserted_call list" where
  "instrument_bbl bbl = [BBL_InsertCall IPOINT_ANYWHERE AFUN_DoCount (Some (ucast (BBL_NumIns bbl)))]"

text \<open>
  The result of \<open>Trace\<close> is, for each basic block the second loop visits, the calls
  inserted into it; the early \<open>return\<close> visits none.
\<close>

definition Trace_IA32 ::
    "ADDRINT32 TRACE \<Rightarrow> ADDRINT32 tool_state \<Rightarrow> ADDRINT32 inserted_call list list" where
  "Trace_IA32 trace s =
     (let addr = TRACE_Address trace
      in if Found addr (InstrumentRanges s) then map instrument_bbl_IA32 (TRACE_Bbls trace)
         else [])"

definition Trace ::
    "ADDRINT64 TRACE \<Rightarrow> ADDRINT64 tool_state \<Rightarrow> ADDRINT64 inserted_call list list" where
  "Trace trace s =
     (let addr = TRACE_Address trace
      in if Found addr (InstrumentRanges s) then map instrument_bbl (TRACE_Bbls trace)
         else [])"

subsection \<open>Process exit\<close>

text \<open>An unsigned integer in decimal, as the stream prints it.\<close>

fun decimal :: "nat \<Rightarrow> string" where
  "decimal n =
     (if n < 10 then [''0123456789'' ! n]
      else decimal (n div 10) @ [''0123456789'' ! (n mod 10)])"

declare decimal.simps [simp del]

definition Fini :: "'a tool_state \<Rightarrow> 'a tool_state" where
  "Fini s =
     (if \<not> QuietKnob s
      then s\<lparr>cerr := cerr s @ [''Instructions executed: '' @ decimal (unat (TotalCount s))]\<rparr>
      else s)"

text \<open>
  Reading a printed number back: the value of a string of decimal digits. It is used only
  to state that \<open>decimal\<close> prints the number it is given.
\<close>

definition digit_value :: "char \<Rightarrow> nat" where
  "digit_value c = of_char c - 48"

definition decimal_value :: "string \<Rightarrow> nat" where
  "decimal_value s = foldl (\<lambda>a c. 10 * a + digit_value c) 0 s"

subsection \<open>Startup\<close>

text \<open>
  \<open>main\<close> ends in one of three ways: it returns what \<open>Usage\<close> returns, it returns 1, or it
  registers the callbacks and hands control to the host with \<open>PIN_StartProgram\<close>. Its
  inputs are the answers of the host: whether \<open>PIN_Init\<close> reported an error, the summary of
  the knobs, the registers that \<open>PIN_ClaimToolRegister\<close> hands out, and the validity
  test \<open>REG_valid\<close>. The first component of the result is the lines written to the error
  stream.
\<close>

datatype main_result = Returned int | StartedProgram

definition Usage :: "string \<Rightarrow> string list \<times> int" where
  "Usage StringKnobSummary =
     ([''CoreCLR pintool for investigating JIT throughput'', StringKnobSummary], - 1)"

definition main_IA32 ::
    "('reg \<Rightarrow> bool) \<Rightarrow> string \<Rightarrow> bool \<Rightarrow> 'reg \<Rightarrow> 'reg \<Rightarrow> string list \<times> main_result" where
  "main_IA32 REG_valid StringKnobSummary PIN_Init lowReg highReg =
     (if PIN_Init then (fst (Usage StringKnobSummary), Returned (snd (Usage StringKnobSummary)))
      else (let claimed = (REG_valid lowReg \<and> REG_valid highReg)
            in if \<not> claimed
               then ([''Could not allocate storage for instruction count.''], Returned 1)
               else ([], StartedProgram)))"

definition main ::
    "('reg \<Rightarrow> bool) \<Rightarrow> string \<Rightarrow> bool \<Rightarrow> 'reg \<Rightarrow> string list \<times> main_result" where
  "main REG_valid StringKnobSummary PIN_Init reg =
     (if PIN_Init then (fst (Usage StringKnobSummary), Returned (snd (Usage StringKnobSummary)))
      else (let claimed = REG_valid reg
            in if \<not> claimed
               then ([''Could not allocate storage for instruction count.''], Returned 1)
               else ([], StartedProgram)))"

section \<open>The two-register counter\<close>

lemma unat32_less: "unat (w :: 32 word) < 4294967296"
  using unsigned_less [of w, where 'a = nat] by simp

lemma unat_ucast_32_64: "unat (ucast (w :: 32 word) :: 64 word) = unat w"
proof -
  have "unat w < 2 ^ 64"
    using unat32_less [of w] by simp
  then show ?thesis
    by (simp add: unsigned_ucast_eq take_bit_nat_eq_self)
qed

lemma unat_high_half: "unat (push_bit 32 (ucast (w :: 32 word) :: 64 word)) = unat w * 2 ^ 32"
proof -
  have "unat w * 2 ^ 32 < 2 ^ 64"
    using unat32_less [of w] by simp
  then show ?thesis
    by (simp add: push_bit_eq_mult unat_word_ariths unat_ucast_32_64)
qed

lemma halves_disjoint:
  "push_bit 32 (ucast (hi :: 32 word) :: 64 word) OR ucast (lo :: 32 word)
     = push_bit 32 (ucast hi) + ucast lo"
  by (rule disjunctive_add [symmetric]) (auto simp: bit_simps dest: bit_imp_le_length)

lemma unat_halves:
  "unat (push_bit 32 (ucast (hi :: 32 word) :: 64 word) OR ucast (lo :: 32 word))
     = unat hi * 2 ^ 32 + unat lo"
proof -
  have "unat hi * 2 ^ 32 + unat lo < 2 ^ 64"
    using unat32_less [of lo] unat32_less [of hi] by simp
  then show ?thesis
    by (simp add: halves_disjoint unat_word_ariths unat_ucast_32_64 unat_high_half)
qed

lemma unat_ReadInsCount_IA32:
  "unat (ReadInsCount_IA32 lo hi) = unat hi * 2 ^ 32 + unat lo"
  by (simp only: ReadInsCount_IA32_def unat_halves)

lemma unat_DoCountLow:
  "unat (DoCountLow lo n) =
     (if 2 ^ 32 \<le> unat lo + unat n then unat lo + unat n - 2 ^ 32 else unat lo + unat n)"
  by (simp add: DoCountLow_def unat_plus_if')

lemma unat_DoCountHigh:
  "unat (DoCountHigh hi) = (if unat hi = 2 ^ 32 - 1 then 0 else unat hi + 1)"
  using unat32_less [of hi] by (simp add: DoCountHigh_def unat_plus_if')

lemma OverflowedLow_iff:
  "OverflowedLow (DoCountLow lo n) n \<noteq> 0 \<longleftrightarrow> 2 ^ 32 \<le> unat lo + unat n"
  using unat32_less [of lo] unat32_less [of n]
  by (auto simp: OverflowedLow_def DoCountLow_def word_less_nat_alt unat_plus_if')

lemma unat_carry_step:
  "unat (ReadInsCount_IA32 (DoCountLow lo n)
          (if OverflowedLow (DoCountLow lo n) n \<noteq> 0 then DoCountHigh hi else hi))
   = (unat hi * 2 ^ 32 + unat lo + unat n) mod 2 ^ 64"
proof (cases "2 ^ 32 \<le> unat lo + unat n")
  case False
  then have ov: "\<not> OverflowedLow (DoCountLow lo n) n \<noteq> 0"
    by (simp only: OverflowedLow_iff) simp
  from False have l: "unat (DoCountLow lo n) = unat lo + unat n"
    by (simp add: unat_DoCountLow)
  from False have "unat hi * 2 ^ 32 + unat lo + unat n < 2 ^ 64"
    using unat32_less [of hi] by simp
  then show ?thesis
    by (simp add: ov unat_ReadInsCount_IA32 l)
next
  case True
  then have ov: "OverflowedLow (DoCountLow lo n) n \<noteq> 0"
    by (simp only: OverflowedLow_iff)
  from True have l: "unat (DoCountLow lo n) = unat lo + unat n - 2 ^ 32"
    by (simp add: unat_DoCountLow)
  show ?thesis
  proof (cases "unat hi = 2 ^ 32 - 1")
    case False
    then have h: "unat (DoCountHigh hi) = unat hi + 1"
      by (simp add: unat_DoCountHigh)
    from False have "unat hi * 2 ^ 32 + unat lo + unat n < 2 ^ 64"
      using unat32_less [of lo] unat32_less [of n] unat32_less [of hi] by simp
    with True show ?thesis
      by (simp add: ov unat_ReadInsCount_IA32 l h)
  next
    case top: True
    then have h: "unat (DoCountHigh hi) = 0"
      by (simp add: unat_DoCountHigh)
    have "2 ^ 64 \<le> unat hi * 2 ^ 32 + unat lo + unat n"
      using True top by simp
    moreover have "unat hi * 2 ^ 32 + unat lo + unat n < 2 * 2 ^ 64"
      using unat32_less [of lo] unat32_less [of n] unat32_less [of hi] by simp
    ultimately have "(unat hi * 2 ^ 32 + unat lo + unat n) mod 2 ^ 64
        = unat hi * 2 ^ 32 + unat lo + unat n - 2 ^ 64"
      by (simp add: mod_if le_mod_geq)
    with True top show ?thesis
      by (simp add: ov unat_ReadInsCount_IA32 l h)
  qed
qed

lemma word_carry_step:
  "ReadInsCount_IA32 (DoCountLow lo n)
          (if OverflowedLow (DoCountLow lo n) n \<noteq> 0 then DoCountHigh hi else hi)
   = ReadInsCount_IA32 lo hi + ucast n"
proof -
  have "unat (ReadInsCount_IA32 (DoCountLow lo n)
          (if OverflowedLow (DoCountLow lo n) n \<noteq> 0 then DoCountHigh hi else hi))
      = unat (ReadInsCount_IA32 lo hi + ucast n)"
    by (simp only: unat_carry_step)
       (simp add: unat_word_ariths unat_ReadInsCount_IA32 unat_ucast_32_64)
  then show ?thesis
    by (rule iffD2 [OF word_unat_eq_iff])
qed

lemma run_bbl_IA32_regs:
  "InsCountLowReg (run_bbl_IA32 n ctxt) = DoCountLow (InsCountLowReg ctxt) n"
  "InsCountHighReg (run_bbl_IA32 n ctxt) =
     (if OverflowedLow (DoCountLow (InsCountLowReg ctxt) n) n \<noteq> 0
      then DoCountHigh (InsCountHighReg ctxt) else InsCountHighReg ctxt)"
  by (simp_all add: run_bbl_IA32_def Let_def)

text \<open>
  Claim C1. On the 32-bit build, for all low and high halves and every per-block
  instruction count \<open>n\<close>: with \<open>low' = DoCountLow low n\<close>, which is \<open>low + n\<close> modulo
  \<open>2^32\<close>, and the high half incremented by \<open>DoCountHigh\<close> exactly when \<open>OverflowedLow\<close>
  reports \<open>low' < n\<close>, the 64-bit value read from the new pair, \<open>(high' << 32) | low'\<close>, is
  the 64-bit value of the old pair plus \<open>n\<close>, modulo \<open>2^64\<close>. The last conjunct says the
  same of the context after the calls inserted before a basic block have run.
\<close>

theorem split_count_equals_64bit_addition:
  fixes low high n :: ADDRINT32 and ctxt :: CONTEXT_IA32
  shows "(let low' = DoCountLow low n;
              high' = (if OverflowedLow low' n \<noteq> 0 then DoCountHigh high else high)
          in unat low' = (unat low + unat n) mod 2 ^ 32
           \<and> (OverflowedLow low' n \<noteq> 0) = (low' < n)
           \<and> (push_bit 32 (ucast high') OR ucast low' :: UINT64)
               = (push_bit 32 (ucast high) OR ucast low) + ucast n
           \<and> unat (push_bit 32 (ucast high') OR ucast low' :: UINT64)
               = (unat (push_bit 32 (ucast high) OR ucast low :: UINT64) + unat n) mod 2 ^ 64)
       \<and> ReadInsCount_IA32 (InsCountLowReg (run_bbl_IA32 n ctxt))
            (InsCountHighReg (run_bbl_IA32 n ctxt))
          = ReadInsCount_IA32 (InsCountLowReg ctxt) (InsCountHighReg ctxt) + ucast n"
proof -
  have a: "unat (DoCountLow low n) = (unat low + unat n) mod 2 ^ 32"
    by (simp add: DoCountLow_def unat_word_ariths)
  have b: "(OverflowedLow (DoCountLow low n) n \<noteq> 0) = (DoCountLow low n < n)"
    by (simp add: OverflowedLow_def)
  have c: "(push_bit 32 (ucast (if OverflowedLow (DoCountLow low n) n \<noteq> 0
                then DoCountHigh high else high)) OR ucast (DoCountLow low n) :: UINT64)
            = (push_bit 32 (ucast high) OR ucast low) + ucast n"
    using word_carry_step [of low n high] by (simp only: ReadInsCount_IA32_def)
  have d: "unat (push_bit 32 (ucast (if OverflowedLow (DoCountLow low n) n \<noteq> 0
                then DoCountHigh high else high)) OR ucast (DoCountLow low n) :: UINT64)
            = (unat (push_bit 32 (ucast high) OR ucast low :: UINT64) + unat n) mod 2 ^ 64"
    using unat_carry_step [of low n high]
    by (simp only: ReadInsCount_IA32_def unat_halves)
  have e: "ReadInsCount_IA32 (InsCountLowReg (run_bbl_IA32 n ctxt))
            (InsCountHighReg (run_bbl_IA32 n ctxt))
          = ReadInsCount_IA32 (InsCountLowReg ctxt) (InsCountHighReg ctxt) + ucast n"
    by (simp only: run_bbl_IA32_regs word_carry_step)
  from a b c d e show ?thesis
    by (simp only: Let_def simp_thms)
qed

theorem split_count_equals_64bit_addition_witness:
  "run_bbl_IA32 5 \<lparr>InsCountLowReg = 0xFFFFFFFE, InsCountHighReg = 7\<rparr>
     = \<lparr>InsCountLowReg = 3, InsCountHighReg = 8\<rparr>
   \<and> ReadInsCount_IA32 3 8 = ReadInsCount_IA32 0xFFFFFFFE 7 + 5"
proof -
  have "run_bbl_IA32 5 \<lparr>InsCountLowReg = 0xFFFFFFFE, InsCountHighReg = 7\<rparr>
     = \<lparr>InsCountLowReg = 3, InsCountHighReg = 8\<rparr>"
    by (simp add: run_bbl_IA32_def DoCountLow_def OverflowedLow_def DoCountHigh_def)
  with split_count_equals_64bit_addition
         [where low = "0xFFFFFFFE" and high = 7 and n = 5
            and ctxt = "\<lparr>InsCountLowReg = 0xFFFFFFFE, InsCountHighReg = 7\<rparr>"]
  show ?thesis by simp
qed

section \<open>The process-wide total\<close>

lemma TotalCount_ThreadFini:
  "TotalCount (ThreadFini ctxt s) = TotalCount s + InsCountReg ctxt"
  by (simp add: ThreadFini_def)

lemma TotalCount_ThreadFini_IA32:
  "TotalCount (ThreadFini_IA32 ctxt s)
     = TotalCount s + ReadInsCount_IA32 (InsCountLowReg ctxt) (InsCountHighReg ctxt)"
  by (simp add: ThreadFini_IA32_def ReadInsCount_IA32_def Let_def)

lemma TotalCount_fold_ThreadFini:
  "TotalCount (fold ThreadFini ctxts s) = TotalCount s + sum_list (map InsCountReg ctxts)"
  by (induction ctxts arbitrary: s) (simp_all add: TotalCount_ThreadFini add.assoc)

lemma TotalCount_fold_ThreadFini_IA32:
  "TotalCount (fold ThreadFini_IA32 ctxts s)
     = TotalCount s
       + sum_list (map (\<lambda>c. ReadInsCount_IA32 (InsCountLowReg c) (InsCountHighReg c)) ctxts)"
  by (induction ctxts arbitrary: s) (simp_all add: TotalCount_ThreadFini_IA32 add.assoc)

lemma unat_sum_list_64:
  "unat (sum_list ws :: 64 word) = sum_list (map unat ws) mod 2 ^ 64"
proof (induction ws)
  case Nil
  then show ?case by simp
next
  case (Cons w ws)
  have "unat (w + sum_list ws) = (unat w + unat (sum_list ws)) mod 2 ^ 64"
    by (simp add: unat_word_ariths)
  also have "\<dots> = (unat w + sum_list (map unat ws) mod 2 ^ 64) mod 2 ^ 64"
    by (simp only: Cons.IH)
  also have "\<dots> = (unat w + sum_list (map unat ws)) mod 2 ^ 64"
    by (rule mod_add_right_eq)
  finally show ?case by simp
qed

lemma fold_ThreadFini_keeps:
  "QuietKnob (fold ThreadFini ctxts s) = QuietKnob s"
  "cerr (fold ThreadFini ctxts s) = cerr s"
  by (induction ctxts arbitrary: s) (simp_all add: ThreadFini_def)

lemma fold_ThreadFini_IA32_keeps:
  "QuietKnob (fold ThreadFini_IA32 ctxts s) = QuietKnob s"
  "cerr (fold ThreadFini_IA32 ctxts s) = cerr s"
  by (induction ctxts arbitrary: s) (simp_all add: ThreadFini_IA32_def Let_def)

lemma cerr_Fini:
  "cerr (Fini s) =
     (if QuietKnob s then cerr s
      else cerr s @ [''Instructions executed: '' @ decimal (unat (TotalCount s))])"
  by (simp add: Fini_def)

lemma init_state_fields:
  "TotalCount (init_state q) = 0"
  "cerr (init_state q) = []"
  "QuietKnob (init_state q) = q"
  "InstrumentRanges (init_state q) = []"
  by (simp_all add: init_state_def)

text \<open>
  Claim C2. From the initial state, where \<open>TotalCount\<close> is 0, after the exits of any
  finite sequence of threads the total is the sum of the counts the threads carried when
  they exited, in 64-bit unsigned arithmetic (the sum of the numbers modulo \<open>2^64\<close>), and
  the line that \<open>Fini\<close> writes at process exit shows this sum. On the 64-bit build the
  count of a thread is its counter register; on the 32-bit build it is
  \<open>(high << 32) | low\<close> of its two registers.
\<close>

theorem total_is_sum_of_thread_counts:
  fixes ctxts :: "CONTEXT list" and ictxts :: "CONTEXT_IA32 list"
  shows "TotalCount (fold ThreadFini ctxts (init_state quiet)) = sum_list (map InsCountReg ctxts)
       \<and> unat (TotalCount (fold ThreadFini ctxts (init_state quiet)))
           = sum_list (map (\<lambda>c. unat (InsCountReg c)) ctxts) mod 2 ^ 64
       \<and> cerr (Fini (fold ThreadFini ctxts (init_state False)))
           = [''Instructions executed: '' @ decimal (unat (sum_list (map InsCountReg ctxts)))]
       \<and> TotalCount (fold ThreadFini_IA32 ictxts (init_state quiet))
           = sum_list (map (\<lambda>c. ReadInsCount_IA32 (InsCountLowReg c) (InsCountHighReg c)) ictxts)
       \<and> cerr (Fini (fold ThreadFini_IA32 ictxts (init_state False)))
           = [''Instructions executed: '' @ decimal (unat (sum_list
                (map (\<lambda>c. ReadInsCount_IA32 (InsCountLowReg c) (InsCountHighReg c)) ictxts)))]"
proof -
  have a: "TotalCount (fold ThreadFini ctxts (init_state q)) = sum_list (map InsCountReg ctxts)"
    for q by (simp add: TotalCount_fold_ThreadFini init_state_fields)
  have b: "unat (TotalCount (fold ThreadFini ctxts (init_state quiet)))
           = sum_list (map (\<lambda>c. unat (InsCountReg c)) ctxts) mod 2 ^ 64"
    by (simp add: a unat_sum_list_64 comp_def)
  have c: "cerr (Fini (fold ThreadFini ctxts (init_state False)))
           = [''Instructions executed: '' @ decimal (unat (sum_list (map InsCountReg ctxts)))]"
    by (simp add: cerr_Fini fold_ThreadFini_keeps a init_state_fields)
  have d: "TotalCount (fold ThreadFini_IA32 ictxts (init_state q))
           = sum_list (map (\<lambda>c. ReadInsCount_IA32 (InsCountLowReg c) (InsCountHighReg c)) ictxts)"
    for q by (simp add: TotalCount_fold_ThreadFini_IA32 init_state_fields)
  have e: "cerr (Fini (fold ThreadFini_IA32 ictxts (init_state False)))
           = [''Instructions executed: '' @ decimal (unat (sum_list
                (map (\<lambda>c. ReadInsCount_IA32 (InsCountLowReg c) (InsCountHighReg c)) ictxts)))]"
    by (simp add: cerr_Fini fold_ThreadFini_IA32_keeps d init_state_fields)
  from a b c d e show ?thesis by blast
qed

theorem total_is_sum_of_thread_counts_witness:
  "TotalCount (fold ThreadFini [\<lparr>InsCountReg = 3\<rparr>, \<lparr>InsCountReg = 4\<rparr>, \<lparr>InsCountReg = 5\<rparr>]
      (init_state False)) = 12
   \<and> cerr (Fini (fold ThreadFini [\<lparr>InsCountReg = 3\<rparr>, \<lparr>InsCountReg = 4\<rparr>, \<lparr>InsCountReg = 5\<rparr>]
      (init_state False))) = [''Instructions executed: 12'']"
  using total_is_sum_of_thread_counts
    [where ctxts = "[\<lparr>InsCountReg = 3\<rparr>, \<lparr>InsCountReg = 4\<rparr>, \<lparr>InsCountReg = 5\<rparr>]"
       and ictxts = "[]" and quiet = False]
  by (simp add: decimal.simps)

text \<open>
  Claim C7, as stated, fails: the addition in \<open>ThreadFini\<close> is a 64-bit unsigned addition
  and wraps around. After a thread carrying \<open>2^64 - 1\<close> has exited, the exit of a thread
  carrying 1 takes the total from \<open>2^64 - 1\<close> to 0.
\<close>

theorem TotalCount_wraps_counterexample:
  "\<not> (TotalCount (fold ThreadFini [\<lparr>InsCountReg = 0xFFFFFFFFFFFFFFFF\<rparr>] (init_state False))
       \<le> TotalCount (ThreadFini \<lparr>InsCountReg = 1\<rparr>
           (fold ThreadFini [\<lparr>InsCountReg = 0xFFFFFFFFFFFFFFFF\<rparr>] (init_state False))))"
  by (simp add: ThreadFini_def init_state_def)

text \<open>
  Claim C7, amended. After a \<open>ThreadFini\<close> step the total is the previous total plus the
  count of the exiting thread, modulo \<open>2^64\<close>; it is greater than or equal to the previous
  total exactly when that sum is below \<open>2^64\<close>, that is, when the addition does not wrap
  around. This holds on both builds.
\<close>

theorem TotalCount_monotone_without_wrap:
  "unat (TotalCount (ThreadFini ctxt s))
      = (unat (TotalCount s) + unat (InsCountReg ctxt)) mod 2 ^ 64
   \<and> (TotalCount s \<le> TotalCount (ThreadFini ctxt s)
        \<longleftrightarrow> unat (TotalCount s) + unat (InsCountReg ctxt) < 2 ^ 64)
   \<and> unat (TotalCount (ThreadFini_IA32 ictxt si))
      = (unat (TotalCount si)
          + unat (ReadInsCount_IA32 (InsCountLowReg ictxt) (InsCountHighReg ictxt))) mod 2 ^ 64
   \<and> (TotalCount si \<le> TotalCount (ThreadFini_IA32 ictxt si)
        \<longleftrightarrow> unat (TotalCount si)
          + unat (ReadInsCount_IA32 (InsCountLowReg ictxt) (InsCountHighReg ictxt)) < 2 ^ 64)"
  by (simp add: TotalCount_ThreadFini TotalCount_ThreadFini_IA32
      unat_word_ariths no_plus_overflow_unat_size word_size)

theorem TotalCount_monotone_without_wrap_witness:
  "TotalCount ((init_state False)\<lparr>TotalCount := 5\<rparr>)
     \<le> TotalCount (ThreadFini \<lparr>InsCountReg = 3\<rparr> ((init_state False)\<lparr>TotalCount := 5\<rparr>))
   \<and> TotalCount (ThreadFini \<lparr>InsCountReg = 3\<rparr> ((init_state False)\<lparr>TotalCount := 5\<rparr>)) = 8"
  using TotalCount_monotone_without_wrap
    [where s = "(init_state False)\<lparr>TotalCount := 5\<rparr>"
       and ctxt = "\<lparr>InsCountReg = 3\<rparr>"
       and ictxt = "\<lparr>InsCountLowReg = 0, InsCountHighReg = 0\<rparr>"
       and si = "init_state False"]
  by (simp add: init_state_def ThreadFini_def)

section \<open>The report at process exit\<close>

lemma digit_value_digit: "d < 10 \<Longrightarrow> digit_value (''0123456789'' ! d) = d"
proof -
  assume "d < 10"
  then have "d \<in> {0, 1, 2, 3, 4, 5, 6, 7, 8, 9}"
    by auto
  then show ?thesis
    by (auto simp: digit_value_def)
qed

lemma decimal_value_decimal: "decimal_value (decimal n) = n"
proof (induction n rule: decimal.induct)
  case (1 n)
  show ?case
  proof (cases "n < 10")
    case True
    then show ?thesis
      by (subst decimal.simps) (simp add: decimal_value_def digit_value_digit)
  next
    case False
    with 1 have "decimal_value (decimal (n div 10)) = n div 10"
      by simp
    with False show ?thesis
      by (subst decimal.simps) (simp add: decimal_value_def digit_value_digit)
  qed
qed

text \<open>
  Claim C8. At process exit, with the quiet flag \<open>Fini\<close> changes nothing, so no line is
  written; without it \<open>Fini\<close> appends to the error stream exactly one line,
  \<open>Instructions executed: \<close> followed by the accumulated total in decimal, and changes
  nothing else. The last conjunct says that the digits printed read back as the total.
\<close>

theorem Fini_reports_unless_quiet:
  "(QuietKnob s \<longrightarrow> Fini s = s)
   \<and> (\<not> QuietKnob s \<longrightarrow>
        Fini s = s\<lparr>cerr := cerr s @ [''Instructions executed: '' @ decimal (unat (TotalCount s))]\<rparr>)
   \<and> decimal_value (decimal (unat (TotalCount s))) = unat (TotalCount s)"
  by (simp add: Fini_def decimal_value_decimal)

theorem Fini_reports_unless_quiet_witness:
  "Fini ((init_state True :: ADDRINT64 tool_state)\<lparr>TotalCount := 1234567\<rparr>)
     = (init_state True)\<lparr>TotalCount := 1234567\<rparr>
   \<and> cerr (Fini ((init_state False :: ADDRINT64 tool_state)\<lparr>TotalCount := 1234567\<rparr>))
     = [''Instructions executed: 1234567'']"
  using Fini_reports_unless_quiet
      [of "(init_state True :: ADDRINT64 tool_state)\<lparr>TotalCount := 1234567\<rparr>"]
    Fini_reports_unless_quiet
      [of "(init_state False :: ADDRINT64 tool_state)\<lparr>TotalCount := 1234567\<rparr>"]
  by (simp add: init_state_def decimal.simps)

section \<open>The JIT-module heuristic\<close>

lemma find_rev_upt_None:
  "List.find P (rev [0..<n]) = None \<longleftrightarrow> (\<forall>i<n. \<not> P i)"
  by (induction n) (auto simp: less_Suc_eq)

lemma find_rev_upt_Some:
  "List.find P (rev [0..<n]) = Some i \<longleftrightarrow> i < n \<and> P i \<and> (\<forall>j. i < j \<and> j < n \<longrightarrow> \<not> P j)"
proof (induction n)
  case 0
  then show ?case by simp
next
  case (Suc n)
  show ?case
  proof (cases "P n")
    case True
    then show ?thesis
      by (auto simp: less_Suc_eq)
  next
    case False
    then show ?thesis
      using Suc by (auto simp: less_Suc_eq)
  qed
qed

lemma find_upt_None:
  "List.find P [m..<n] = None \<longleftrightarrow> (\<forall>i. m \<le> i \<and> i < n \<longrightarrow> \<not> P i)"
  by (auto simp: find_None_iff)

lemma matches_at_single: "matches_at s [c] i \<longleftrightarrow> i < length s \<and> s ! i = c"
proof (cases "i < length s")
  case True
  then show ?thesis
    by (auto simp: matches_at_def take_Suc_conv_app_nth hd_drop_conv_nth take_Suc)
next
  case False
  then show ?thesis by (simp add: matches_at_def)
qed

lemma matches_at_iff_split:
  "matches_at s pat i \<longleftrightarrow> (\<exists>pre post. s = pre @ pat @ post \<and> length pre = i)"
proof
  assume m: "matches_at s pat i"
  have "s = take i s @ take (length pat) (drop i s) @ drop (length pat) (drop i s)"
    by (simp only: append_take_drop_id)
  with m have "s = take i s @ pat @ drop (length pat) (drop i s) \<and> length (take i s) = i"
    by (auto simp: matches_at_def)
  then show "\<exists>pre post. s = pre @ pat @ post \<and> length pre = i" by blast
next
  assume "\<exists>pre post. s = pre @ pat @ post \<and> length pre = i"
  then show "matches_at s pat i"
    by (auto simp: matches_at_def)
qed

lemma string_find_iff:
  "string_find s pat pos \<noteq> None \<longleftrightarrow> (\<exists>i\<ge>pos. matches_at s pat i)"
  unfolding string_find_def find_upt_None
  by (auto simp: matches_at_def)

lemma exists_match_from_iff:
  assumes "pos \<le> length s"
  shows "(\<exists>i\<ge>pos. matches_at s pat i) \<longleftrightarrow> sublist pat (drop pos s)"
proof
  assume "\<exists>i\<ge>pos. matches_at s pat i"
  then obtain i pre post where i: "pos \<le> i" and s: "s = pre @ pat @ post" and l: "length pre = i"
    by (auto simp: matches_at_iff_split)
  then have "drop pos s = drop pos pre @ pat @ post" by simp
  then show "sublist pat (drop pos s)" by (auto simp: sublist_def)
next
  assume "sublist pat (drop pos s)"
  then obtain ps ss where d: "drop pos s = ps @ pat @ ss" by (auto simp: sublist_def)
  have "s = take pos s @ drop pos s" by simp
  with d have "s = (take pos s @ ps) @ pat @ ss" by simp
  moreover have "length (take pos s @ ps) \<ge> pos" using assms by simp
  ultimately show "\<exists>i\<ge>pos. matches_at s pat i"
    unfolding matches_at_iff_split by blast
qed

lemma string_rfind_single_None:
  "string_rfind s [c] = None \<longleftrightarrow> c \<notin> set s"
proof -
  have "(\<forall>i<Suc (length s). \<not> (i < length s \<and> s ! i = c)) \<longleftrightarrow> c \<notin> set s"
    by (auto simp: in_set_conv_nth) (metis less_SucI)
  then show ?thesis
    by (simp only: string_rfind_def find_rev_upt_None matches_at_single)
qed

lemma string_rfind_single_Some:
  assumes "string_rfind s [c] = Some i"
  shows "i < length s \<and> s = take i s @ c # drop (Suc i) s \<and> c \<notin> set (drop (Suc i) s)"
proof -
  from assms have i: "i < length s" and c: "s ! i = c"
    and m: "\<forall>j. i < j \<and> j < Suc (length s) \<longrightarrow> \<not> (j < length s \<and> s ! j = c)"
    unfolding string_rfind_def find_rev_upt_Some by (auto simp: matches_at_single)
  have "c \<notin> set (drop (Suc i) s)"
  proof
    assume "c \<in> set (drop (Suc i) s)"
    then obtain k where "k < length (drop (Suc i) s)" "drop (Suc i) s ! k = c"
      by (auto simp: in_set_conv_nth)
    then have "Suc i + k < length s" "s ! (Suc i + k) = c" by auto
    with m show False by auto
  qed
  moreover have "s = take i s @ c # drop (Suc i) s"
    using id_take_nth_drop [OF i] c by simp
  ultimately show ?thesis using i by simp
qed

lemma basename_no_sep:
  assumes "pathSep p = [c]" "c \<notin> set s"
  shows "basename p s = s"
proof -
  have "takeWhile (\<lambda>x. [x] \<noteq> pathSep p) (rev s) = rev s"
    using assms by (auto simp: takeWhile_eq_all_conv)
  then show ?thesis by (simp only: basename_def rev_rev_ident)
qed

lemma basename_after_sep:
  assumes "pathSep p = [c]" "c \<notin> set post"
  shows "basename p (pre @ c # post) = post"
proof -
  have "takeWhile (\<lambda>x. x \<noteq> c) (rev post @ c # rev pre) = rev post"
    using assms(2) by (subst takeWhile_append2) auto
  then show ?thesis using assms(1) by (simp add: basename_def)
qed

lemma pathSep_single: "\<exists>c. pathSep p = [c]"
  by (cases p) (simp_all add: pathSep_def)

lemma IsJitImage_iff_basename:
  "IsJitImage p name \<longleftrightarrow> sublist ''clrjit'' (basename p name)"
proof -
  obtain c where c: "pathSep p = [c]" using pathSep_single by blast
  show ?thesis
  proof (cases "string_rfind name [c]")
    case None
    then have "basename p name = name"
      using c by (simp add: string_rfind_single_None basename_no_sep)
    with None c show ?thesis
      using exists_match_from_iff [of 0 name "''clrjit''"]
      by (simp add: IsJitImage_def string_find_iff del: not_None_eq)
  next
    case (Some i)
    from string_rfind_single_Some [OF Some]
    have i: "i < length name" and s: "name = take i name @ c # drop (Suc i) name"
      and n: "c \<notin> set (drop (Suc i) name)" by auto
    have "basename p name = drop (Suc i) name"
      using basename_after_sep [OF c n, of "take i name"] s by simp
    with Some c i show ?thesis
      using exists_match_from_iff [of "Suc i" name "''clrjit''"]
      by (simp add: IsJitImage_def string_find_iff del: not_None_eq)
  qed
qed

lemma basename_is_suffix_after_last_sep:
  "\<exists>pre. name = pre @ basename p name \<and> (pre = [] \<or> suffix (pathSep p) pre)
     \<and> \<not> sublist (pathSep p) (basename p name)"
proof -
  obtain c where c: "pathSep p = [c]" using pathSep_single by blast
  have ns: "\<And>xs. sublist [c] xs \<longleftrightarrow> c \<in> set xs"
    by (auto simp: sublist_def in_set_conv_decomp)
  show ?thesis
  proof (cases "string_rfind name [c]")
    case None
    then have "basename p name = name" "c \<notin> set name"
      using c by (simp_all add: string_rfind_single_None basename_no_sep)
    then show ?thesis using c by (auto simp: ns)
  next
    case (Some i)
    from string_rfind_single_Some [OF Some]
    have i: "i < length name" and s: "name = take i name @ c # drop (Suc i) name"
      and n: "c \<notin> set (drop (Suc i) name)" by auto
    have b: "basename p name = drop (Suc i) name"
      using basename_after_sep [OF c n, of "take i name"] s by simp
    have "name = (take i name @ [c]) @ basename p name" using s b by simp
    moreover have "suffix (pathSep p) (take i name @ [c])" using c by (simp add: suffix_def)
    moreover have "\<not> sublist (pathSep p) (basename p name)" using n b c by (simp add: ns)
    ultimately show ?thesis by blast
  qed
qed

lemma drop_to_basename:
  "drop (length name - length (basename p name)) name = basename p name"
proof -
  obtain pre where "name = pre @ basename p name"
    using basename_is_suffix_after_last_sep [of name p] by blast
  then have "drop (length name - length (basename p name)) name
      = drop (length pre) (pre @ basename p name)"
    by (metis add_diff_cancel_right' length_append)
  then show ?thesis by simp
qed

text \<open>
  Claim C3. For every module name, \<open>IsJitImage\<close> is true exactly when \<open>clrjit\<close> occurs in
  the basename of the name; equivalently, when it occurs in the name at an index at or
  after the position that follows the last path separator, which is the position where the
  basename starts (0 when the name has no separator). The last conjunct fixes what the
  basename is: the name is a prefix followed by the basename, the prefix is empty or ends
  with the separator, and the basename holds no separator.
\<close>

theorem IsJitImage_iff_term_in_basename:
  "(IsJitImage p name \<longleftrightarrow> jit_in_basename p name)
   \<and> (IsJitImage p name \<longleftrightarrow>
        (\<exists>i. length name - length (basename p name) \<le> i \<and> matches_at name ''clrjit'' i))
   \<and> (\<exists>pre. name = pre @ basename p name \<and> (pre = [] \<or> suffix (pathSep p) pre)
        \<and> \<not> sublist (pathSep p) (basename p name))"
proof -
  have a: "IsJitImage p name \<longleftrightarrow> jit_in_basename p name"
    by (simp only: jit_in_basename_def IsJitImage_iff_basename)
  have "(\<exists>i\<ge>length name - length (basename p name). matches_at name ''clrjit'' i)
      \<longleftrightarrow> sublist ''clrjit'' (basename p name)"
    using exists_match_from_iff [of "length name - length (basename p name)" name "''clrjit''"]
    by (simp only: drop_to_basename)
  then have b: "IsJitImage p name \<longleftrightarrow>
        (\<exists>i. length name - length (basename p name) \<le> i \<and> matches_at name ''clrjit'' i)"
    by (simp only: IsJitImage_iff_basename)
  from a b basename_is_suffix_after_last_sep [of name p] show ?thesis
    by blast
qed

theorem IsJitImage_iff_term_in_basename_witness:
  "IsJitImage TARGET_LINUX ''/usr/lib/libclrjit.so''
   \<and> \<not> IsJitImage TARGET_LINUX ''/opt/clrjit/libcoreclr.so''
   \<and> IsJitImage TARGET_WINDOWS ''/opt/clrjit/libcoreclr.so''"
proof -
  have "jit_in_basename TARGET_LINUX ''/usr/lib/libclrjit.so''"
    by code_simp
  moreover have "\<not> jit_in_basename TARGET_LINUX ''/opt/clrjit/libcoreclr.so''"
    by code_simp
  moreover have "jit_in_basename TARGET_WINDOWS ''/opt/clrjit/libcoreclr.so''"
    by code_simp
  ultimately show ?thesis
    using IsJitImage_iff_term_in_basename [of TARGET_LINUX "''/usr/lib/libclrjit.so''"]
      IsJitImage_iff_term_in_basename [of TARGET_LINUX "''/opt/clrjit/libcoreclr.so''"]
      IsJitImage_iff_term_in_basename [of TARGET_WINDOWS "''/opt/clrjit/libcoreclr.so''"]
    by blast
qed

section \<open>The registered ranges\<close>

lemma std_find_le: "std_find xs v \<le> length xs"
  by (induction xs) auto

lemma std_find_end_iff: "std_find xs v = length xs \<longleftrightarrow> v \<notin> set xs"
proof (induction xs)
  case Nil
  then show ?case by simp
next
  case (Cons x xs)
  then show ?case by auto
qed

lemma erase_std_find: "v \<in> set xs \<Longrightarrow> erase xs (std_find xs v) = remove1 v xs"
  by (induction xs) (auto simp: erase_def)

lemma std_find_first:
  "v \<notin> set pre \<Longrightarrow> std_find (pre @ v # post) v = length pre"
  by (induction pre) auto

lemma erase_first: "v \<notin> set pre \<Longrightarrow> erase (pre @ v # post) (std_find (pre @ v # post) v) = pre @ post"
  by (simp add: std_find_first erase_def)

lemma ranges_ImageLoad:
  "InstrumentRanges (ImageLoad p img s) =
     (if IsJitImage p (IMG_Name img)
      then InstrumentRanges s @ [(IMG_LowAddress img, IMG_HighAddress img)]
      else InstrumentRanges s)"
  by (simp add: ImageLoad_def Let_def)

lemma ranges_ImageUnload:
  "InstrumentRanges (ImageUnload p img s) =
     (if IsJitImage p (IMG_Name img)
      then remove1 (IMG_LowAddress img, IMG_HighAddress img) (InstrumentRanges s)
      else InstrumentRanges s)"
  by (auto simp: ImageUnload_def Let_def std_find_end_iff erase_std_find remove1_idem)

lemma ImageUnload_noop:
  "(IMG_LowAddress img, IMG_HighAddress img) \<notin> set (InstrumentRanges s) \<or> \<not> IsJitImage p (IMG_Name img)
   \<Longrightarrow> ImageUnload p img s = s"
  by (auto simp: ImageUnload_def Let_def std_find_end_iff)

text \<open>
  Claim C9. The heuristic is case-sensitive: a module whose basename does not contain the
  exact lower-case \<open>clrjit\<close> is not a JIT image, whatever other spelling of the term it
  contains (\<open>CLRJIT\<close>, \<open>ClrJit\<close>), and loading it registers no range. The hypothesis that
  the term occurs in another letter case is not needed.
\<close>

theorem IsJitImage_case_sensitive:
  assumes "\<not> sublist ''clrjit'' (basename p (IMG_Name img))"
  shows "\<not> IsJitImage p (IMG_Name img)
       \<and> InstrumentRanges (ImageLoad p img s) = InstrumentRanges s"
  using assms by (simp add: IsJitImage_iff_basename ranges_ImageLoad)

theorem IsJitImage_case_sensitive_witness:
  "\<not> IsJitImage TARGET_LINUX ''/usr/lib/libCLRJIT.so''
   \<and> \<not> IsJitImage TARGET_WINDOWS (''C:'' @ pathSep TARGET_WINDOWS @ ''ClrJit.dll'')
   \<and> InstrumentRanges (ImageLoad TARGET_LINUX
         \<lparr>IMG_Name = ''/usr/lib/libCLRJIT.so'', IMG_LowAddress = 0x1000 :: ADDRINT64,
          IMG_HighAddress = 0x1FFF, IMG_Rtns = []\<rparr> (init_state False)) = []"
proof -
  have a: "\<not> sublist ''clrjit'' (basename TARGET_LINUX ''/usr/lib/libCLRJIT.so'')"
    by code_simp
  have b: "\<not> sublist ''clrjit''
      (basename TARGET_WINDOWS (''C:'' @ pathSep TARGET_WINDOWS @ ''ClrJit.dll''))"
    by code_simp
  show ?thesis
    using IsJitImage_case_sensitive [where p = TARGET_LINUX and s = "init_state False"
        and img = "\<lparr>IMG_Name = ''/usr/lib/libCLRJIT.so'', IMG_LowAddress = 0x1000 :: ADDRINT64,
          IMG_HighAddress = 0x1FFF, IMG_Rtns = []\<rparr>"]
      IsJitImage_case_sensitive [where p = TARGET_WINDOWS and s = "init_state False"
        and img = "\<lparr>IMG_Name = ''C:'' @ pathSep TARGET_WINDOWS @ ''ClrJit.dll'',
          IMG_LowAddress = 0x1000 :: ADDRINT64, IMG_HighAddress = 0x1FFF, IMG_Rtns = []\<rparr>"]
      a b
    by (simp add: init_state_def)
qed

text \<open>
  Claim C5. For every state, when a module satisfying the heuristic is loaded the pair of
  its low and high address is appended to the list, and when the same module is then
  unloaded the multiset of registered ranges is the original one: the unload takes away
  exactly one occurrence of the pair.
\<close>

theorem load_then_unload_restores_ranges:
  assumes "IsJitImage p (IMG_Name img)"
  shows "InstrumentRanges (ImageLoad p img s)
           = InstrumentRanges s @ [(IMG_LowAddress img, IMG_HighAddress img)]
       \<and> mset (InstrumentRanges (ImageUnload p img (ImageLoad p img s)))
           = mset (InstrumentRanges s)
       \<and> mset (InstrumentRanges (ImageUnload p img (ImageLoad p img s)))
             + {#(IMG_LowAddress img, IMG_HighAddress img)#}
           = mset (InstrumentRanges (ImageLoad p img s))"
  using assms by (simp add: ranges_ImageLoad ranges_ImageUnload)

theorem load_then_unload_restores_ranges_witness:
  "InstrumentRanges (ImageUnload TARGET_LINUX
       \<lparr>IMG_Name = ''/usr/lib/libclrjit.so'', IMG_LowAddress = 0x1000 :: ADDRINT64,
        IMG_HighAddress = 0x1FFF, IMG_Rtns = []\<rparr>
     (ImageLoad TARGET_LINUX
       \<lparr>IMG_Name = ''/usr/lib/libclrjit.so'', IMG_LowAddress = 0x1000 :: ADDRINT64,
        IMG_HighAddress = 0x1FFF, IMG_Rtns = []\<rparr>
       ((init_state False)\<lparr>InstrumentRanges := [(0x1000, 0x1FFF), (0x4000, 0x4FFF)]\<rparr>)))
   = [(0x4000, 0x4FFF), (0x1000, 0x1FFF)]
   \<and> mset [(0x4000, 0x4FFF), (0x1000 :: ADDRINT64, 0x1FFF :: ADDRINT64)]
      = mset [(0x1000, 0x1FFF), (0x4000, 0x4FFF)]"
proof -
  have j: "IsJitImage TARGET_LINUX ''/usr/lib/libclrjit.so''"
    by code_simp
  have "InstrumentRanges (ImageUnload TARGET_LINUX
       \<lparr>IMG_Name = ''/usr/lib/libclrjit.so'', IMG_LowAddress = 0x1000 :: ADDRINT64,
        IMG_HighAddress = 0x1FFF, IMG_Rtns = []\<rparr>
     (ImageLoad TARGET_LINUX
       \<lparr>IMG_Name = ''/usr/lib/libclrjit.so'', IMG_LowAddress = 0x1000 :: ADDRINT64,
        IMG_HighAddress = 0x1FFF, IMG_Rtns = []\<rparr>
       ((init_state False)\<lparr>InstrumentRanges := [(0x1000, 0x1FFF), (0x4000, 0x4FFF)]\<rparr>)))
   = [(0x4000, 0x4FFF), (0x1000, 0x1FFF)]"
    using j by (simp add: ImageUnload_def ImageLoad_def Let_def RTN_FindByName_def RTN_Valid_def
        erase_def init_state_def)
  then show ?thesis
    using load_then_unload_restores_ranges [where p = TARGET_LINUX
        and img = "\<lparr>IMG_Name = ''/usr/lib/libclrjit.so'', IMG_LowAddress = 0x1000 :: ADDRINT64,
          IMG_HighAddress = 0x1FFF, IMG_Rtns = []\<rparr>"
        and s = "(init_state False)\<lparr>InstrumentRanges := [(0x1000, 0x1FFF), (0x4000, 0x4FFF)]\<rparr>",
        OF _] j
    by (simp add: init_state_def)
qed

text \<open>
  Claim C10. \<open>ImageUnload\<close> is a function of the state with no error result. It leaves the
  state unchanged when the pair of the unloaded image is not registered, and also for
  every image that is not a JIT image. For a JIT image whose pair is registered, the
  first occurrence of the pair is removed and everything after it, further occurrences
  included, stays: the number of occurrences goes down by exactly one.
\<close>

theorem ImageUnload_unregistered_or_duplicate:
  fixes img :: "'a IMG" and s :: "'a tool_state"
  defines "r \<equiv> (IMG_LowAddress img, IMG_HighAddress img)"
  shows "(r \<notin> set (InstrumentRanges s) \<or> \<not> IsJitImage p (IMG_Name img)
            \<longrightarrow> ImageUnload p img s = s)
       \<and> (IsJitImage p (IMG_Name img) \<and> InstrumentRanges s = pre @ r # post \<and> r \<notin> set pre
            \<longrightarrow> ImageUnload p img s = s\<lparr>InstrumentRanges := pre @ post\<rparr>)
       \<and> (IsJitImage p (IMG_Name img)
            \<longrightarrow> count_list (InstrumentRanges (ImageUnload p img s)) r
                 = count_list (InstrumentRanges s) r - 1)"
proof -
  have a: "r \<notin> set (InstrumentRanges s) \<or> \<not> IsJitImage p (IMG_Name img)
            \<longrightarrow> ImageUnload p img s = s"
    unfolding r_def using ImageUnload_noop [of img s p] by blast
  have b: "IsJitImage p (IMG_Name img) \<and> InstrumentRanges s = pre @ r # post \<and> r \<notin> set pre
            \<longrightarrow> ImageUnload p img s = s\<lparr>InstrumentRanges := pre @ post\<rparr>"
    unfolding r_def
    by (auto simp: ImageUnload_def Let_def std_find_first erase_def)
  have "count_list (remove1 r xs) r = count_list xs r - 1" for xs
    by (induction xs) auto
  then have c: "IsJitImage p (IMG_Name img)
            \<longrightarrow> count_list (InstrumentRanges (ImageUnload p img s)) r
                 = count_list (InstrumentRanges s) r - 1"
    unfolding r_def by (simp add: ranges_ImageUnload)
  from a b c show ?thesis by blast
qed

theorem ImageUnload_unregistered_or_duplicate_witness:
  "ImageUnload TARGET_LINUX
       \<lparr>IMG_Name = ''/usr/lib/libclrjit.so'', IMG_LowAddress = 0x1000 :: ADDRINT64,
        IMG_HighAddress = 0x1FFF, IMG_Rtns = []\<rparr>
       ((init_state False)\<lparr>InstrumentRanges :=
           [(0x4000, 0x4FFF), (0x1000, 0x1FFF), (0x8000, 0x8FFF), (0x1000, 0x1FFF)]\<rparr>)
     = (init_state False)\<lparr>InstrumentRanges :=
           [(0x4000, 0x4FFF), (0x8000, 0x8FFF), (0x1000, 0x1FFF)]\<rparr>
   \<and> ImageUnload TARGET_LINUX
       \<lparr>IMG_Name = ''/usr/lib/libclrjit.so'', IMG_LowAddress = 0x1000 :: ADDRINT64,
        IMG_HighAddress = 0x1FFF, IMG_Rtns = []\<rparr>
       ((init_state False)\<lparr>InstrumentRanges := [(0x4000, 0x4FFF)]\<rparr>)
     = (init_state False)\<lparr>InstrumentRanges := [(0x4000, 0x4FFF)]\<rparr>"
proof -
  have j: "IsJitImage TARGET_LINUX ''/usr/lib/libclrjit.so''"
    by code_simp
  show ?thesis
    using ImageUnload_unregistered_or_duplicate [where p = TARGET_LINUX
        and img = "\<lparr>IMG_Name = ''/usr/lib/libclrjit.so'', IMG_LowAddress = 0x1000 :: ADDRINT64,
          IMG_HighAddress = 0x1FFF, IMG_Rtns = []\<rparr>"
        and s = "(init_state False)\<lparr>InstrumentRanges :=
           [(0x4000, 0x4FFF), (0x1000, 0x1FFF), (0x8000, 0x8FFF), (0x1000, 0x1FFF)]\<rparr>"
        and pre = "[(0x4000, 0x4FFF)]" and post = "[(0x8000, 0x8FFF), (0x1000, 0x1FFF)]"]
      ImageUnload_unregistered_or_duplicate [where p = TARGET_LINUX
        and img = "\<lparr>IMG_Name = ''/usr/lib/libclrjit.so'', IMG_LowAddress = 0x1000 :: ADDRINT64,
          IMG_HighAddress = 0x1FFF, IMG_Rtns = []\<rparr>"
        and s = "(init_state False)\<lparr>InstrumentRanges := [(0x4000, 0x4FFF)]\<rparr>"
        and pre = "[]" and post = "[]"]
      j
    by (simp add: init_state_def)
qed

section \<open>Trace instrumentation\<close>

lemma Found_iff:
  "Found addr ranges \<longleftrightarrow> (\<exists>(lo, hi)\<in>set ranges. lo \<le> addr \<and> addr < hi)"
  by (induction ranges) (auto split: prod.splits)

lemma instrument_nonempty:
  "bbls \<noteq> [] \<Longrightarrow> concat (map instrument_bbl bbls) \<noteq> []"
  "bbls \<noteq> [] \<Longrightarrow> concat (map instrument_bbl_IA32 bbls) \<noteq> []"
  by (cases bbls; simp add: instrument_bbl_def instrument_bbl_IA32_def)+

text \<open>
  Claim C4. For every trace (a trace has at least one basic block) and every state of the
  range list, \<open>Trace\<close> inserts calls exactly when some registered range \<open>(lo, hi)\<close> has
  \<open>lo \<le> addr\<close> and \<open>addr < hi\<close> for the start address \<open>addr\<close> of the trace. Then every
  basic block of the trace, in order, gets the counting calls, each with the number of
  instructions of its block: on the 64-bit build the call of \<open>DoCount\<close>; on the 32-bit
  build the call of \<open>DoCountLow\<close>, then the if-call of \<open>OverflowedLow\<close>, then the
  then-call of \<open>DoCountHigh\<close>. When no range contains the start address, nothing is
  inserted.
\<close>

theorem Trace_instruments_iff_start_in_range:
  assumes "TRACE_Bbls trace \<noteq> []" and "TRACE_Bbls itrace \<noteq> []"
  shows "(concat (Trace trace s) \<noteq> [] \<longleftrightarrow>
            (\<exists>(lo, hi)\<in>set (InstrumentRanges s).
               lo \<le> TRACE_Address trace \<and> TRACE_Address trace < hi))
       \<and> Trace trace s =
            (if \<exists>(lo, hi)\<in>set (InstrumentRanges s).
                  lo \<le> TRACE_Address trace \<and> TRACE_Address trace < hi
             then map (\<lambda>bbl. [BBL_InsertCall IPOINT_ANYWHERE AFUN_DoCount
                                  (Some (ucast (BBL_NumIns bbl)))])
                    (TRACE_Bbls trace)
             else [])
       \<and> (concat (Trace_IA32 itrace si) \<noteq> [] \<longleftrightarrow>
            (\<exists>(lo, hi)\<in>set (InstrumentRanges si).
               lo \<le> TRACE_Address itrace \<and> TRACE_Address itrace < hi))
       \<and> Trace_IA32 itrace si =
            (if \<exists>(lo, hi)\<in>set (InstrumentRanges si).
                  lo \<le> TRACE_Address itrace \<and> TRACE_Address itrace < hi
             then map (\<lambda>bbl. [BBL_InsertCall IPOINT_BEFORE AFUN_DoCountLow
                                  (Some (BBL_NumIns bbl)),
                                BBL_InsertIfCall IPOINT_BEFORE AFUN_OverflowedLow
                                  (Some (BBL_NumIns bbl)),
                                BBL_InsertThenCall IPOINT_BEFORE AFUN_DoCountHigh None])
                    (TRACE_Bbls itrace)
             else [])"
proof -
  have a: "instrument_bbl = (\<lambda>bbl. [BBL_InsertCall IPOINT_ANYWHERE AFUN_DoCount
                                  (Some (ucast (BBL_NumIns bbl)))])"
    by (rule ext) (simp add: instrument_bbl_def)
  have b: "instrument_bbl_IA32 =
             (\<lambda>bbl. [BBL_InsertCall IPOINT_BEFORE AFUN_DoCountLow (Some (BBL_NumIns bbl)),
                      BBL_InsertIfCall IPOINT_BEFORE AFUN_OverflowedLow (Some (BBL_NumIns bbl)),
                      BBL_InsertThenCall IPOINT_BEFORE AFUN_DoCountHigh None])"
    by (rule ext) (simp add: instrument_bbl_IA32_def)
  have c: "(concat (Trace trace s) \<noteq> [] \<longleftrightarrow>
            (\<exists>(lo, hi)\<in>set (InstrumentRanges s).
               lo \<le> TRACE_Address trace \<and> TRACE_Address trace < hi))"
    using instrument_nonempty(1) [OF assms(1)]
    by (simp add: Trace_def Let_def Found_iff)
  have d: "(concat (Trace_IA32 itrace si) \<noteq> [] \<longleftrightarrow>
            (\<exists>(lo, hi)\<in>set (InstrumentRanges si).
               lo \<le> TRACE_Address itrace \<and> TRACE_Address itrace < hi))"
    using instrument_nonempty(2) [OF assms(2)]
    by (simp add: Trace_IA32_def Let_def Found_iff)
  have e: "Trace trace s =
            (if \<exists>(lo, hi)\<in>set (InstrumentRanges s).
                  lo \<le> TRACE_Address trace \<and> TRACE_Address trace < hi
             then map instrument_bbl (TRACE_Bbls trace) else [])"
    by (simp add: Trace_def Let_def Found_iff)
  have f: "Trace_IA32 itrace si =
            (if \<exists>(lo, hi)\<in>set (InstrumentRanges si).
                  lo \<le> TRACE_Address itrace \<and> TRACE_Address itrace < hi
             then map instrument_bbl_IA32 (TRACE_Bbls itrace) else [])"
    by (simp add: Trace_IA32_def Let_def Found_iff)
  from c d e [unfolded a] f [unfolded b] show ?thesis
    by (simp only: simp_thms)
qed

theorem Trace_instruments_iff_start_in_range_witness:
  "Trace \<lparr>TRACE_Address = 0x1800, TRACE_Bbls = [\<lparr>BBL_NumIns = 7\<rparr>]\<rparr>
      ((init_state False)\<lparr>InstrumentRanges := [(0x4000, 0x4FFF), (0x1000, 0x1FFF)]\<rparr>)
     = [BBL_InsertCall IPOINT_ANYWHERE AFUN_DoCount (Some 7)] # []
   \<and> Trace \<lparr>TRACE_Address = 0x1FFF, TRACE_Bbls = [\<lparr>BBL_NumIns = 7\<rparr>]\<rparr>
      ((init_state False)\<lparr>InstrumentRanges := [(0x4000, 0x4FFF), (0x1000, 0x1FFF)]\<rparr>)
     = []
   \<and> Trace_IA32 \<lparr>TRACE_Address = 0x1000, TRACE_Bbls = [\<lparr>BBL_NumIns = 7\<rparr>, \<lparr>BBL_NumIns = 3\<rparr>]\<rparr>
      ((init_state False)\<lparr>InstrumentRanges := [(0x4000, 0x4FFF), (0x1000, 0x1FFF)]\<rparr>)
     = [BBL_InsertCall IPOINT_BEFORE AFUN_DoCountLow (Some 7),
        BBL_InsertIfCall IPOINT_BEFORE AFUN_OverflowedLow (Some 7),
        BBL_InsertThenCall IPOINT_BEFORE AFUN_DoCountHigh None]
       # [BBL_InsertCall IPOINT_BEFORE AFUN_DoCountLow (Some 3),
          BBL_InsertIfCall IPOINT_BEFORE AFUN_OverflowedLow (Some 3),
          BBL_InsertThenCall IPOINT_BEFORE AFUN_DoCountHigh None]
       # []
   \<and> Trace_IA32 \<lparr>TRACE_Address = 0x0FFF, TRACE_Bbls = [\<lparr>BBL_NumIns = 7\<rparr>, \<lparr>BBL_NumIns = 3\<rparr>]\<rparr>
      ((init_state False)\<lparr>InstrumentRanges := [(0x4000, 0x4FFF), (0x1000, 0x1FFF)]\<rparr>)
     = []"
  using Trace_instruments_iff_start_in_range [where
        trace = "\<lparr>TRACE_Address = 0x1800, TRACE_Bbls = [\<lparr>BBL_NumIns = 7\<rparr>]\<rparr>"
    and s = "(init_state False)\<lparr>InstrumentRanges := [(0x4000, 0x4FFF), (0x1000, 0x1FFF)]\<rparr>"
    and itrace = "\<lparr>TRACE_Address = 0x1000, TRACE_Bbls = [\<lparr>BBL_NumIns = 7\<rparr>, \<lparr>BBL_NumIns = 3\<rparr>]\<rparr>"
    and si = "(init_state False)\<lparr>InstrumentRanges := [(0x4000, 0x4FFF), (0x1000, 0x1FFF)]\<rparr>"]
   Trace_instruments_iff_start_in_range [where
        trace = "\<lparr>TRACE_Address = 0x1FFF, TRACE_Bbls = [\<lparr>BBL_NumIns = 7\<rparr>]\<rparr>"
    and s = "(init_state False)\<lparr>InstrumentRanges := [(0x4000, 0x4FFF), (0x1000, 0x1FFF)]\<rparr>"
    and itrace = "\<lparr>TRACE_Address = 0x0FFF, TRACE_Bbls = [\<lparr>BBL_NumIns = 7\<rparr>, \<lparr>BBL_NumIns = 3\<rparr>]\<rparr>"
    and si = "(init_state False)\<lparr>InstrumentRanges := [(0x4000, 0x4FFF), (0x1000, 0x1FFF)]\<rparr>"]
  by (simp add: init_state_def)

section \<open>Startup\<close>

text \<open>
  Claim C6. When \<open>PIN_Init\<close> has succeeded, so that the tool registers are claimed: if a
  claimed register is invalid (either of the two on the 32-bit build, the single one
  otherwise), \<open>main\<close> writes the message and returns 1; if the registers are valid,
  nothing is written and the program is started. With valid registers \<open>main\<close> never
  returns 1, whatever \<open>PIN_Init\<close> answered.
\<close>

theorem main_returns_1_when_storage_not_claimed:
  "(\<not> PIN_Init \<and> \<not> (REG_valid lowReg \<and> REG_valid highReg) \<longrightarrow>
      main_IA32 REG_valid summary PIN_Init lowReg highReg
        = ([''Could not allocate storage for instruction count.''], Returned 1))
   \<and> (\<not> PIN_Init \<and> REG_valid lowReg \<and> REG_valid highReg \<longrightarrow>
      main_IA32 REG_valid summary PIN_Init lowReg highReg = ([], StartedProgram))
   \<and> (REG_valid lowReg \<and> REG_valid highReg \<longrightarrow>
      snd (main_IA32 REG_valid summary PIN_Init lowReg highReg) \<noteq> Returned 1)
   \<and> (\<not> PIN_Init \<and> \<not> REG_valid reg \<longrightarrow>
      main REG_valid summary PIN_Init reg
        = ([''Could not allocate storage for instruction count.''], Returned 1))
   \<and> (\<not> PIN_Init \<and> REG_valid reg \<longrightarrow>
      main REG_valid summary PIN_Init reg = ([], StartedProgram))
   \<and> (REG_valid reg \<longrightarrow> snd (main REG_valid summary PIN_Init reg) \<noteq> Returned 1)"
  by (simp add: main_def main_IA32_def Usage_def Let_def)

theorem main_returns_1_when_storage_not_claimed_witness:
  "main (\<lambda>r :: nat. r \<noteq> 0) ''knobs'' False 0
     = ([''Could not allocate storage for instruction count.''], Returned 1)
   \<and> main_IA32 (\<lambda>r :: nat. r \<noteq> 0) ''knobs'' False 7 0
     = ([''Could not allocate storage for instruction count.''], Returned 1)
   \<and> main (\<lambda>r :: nat. r \<noteq> 0) ''knobs'' False 7 = ([], StartedProgram)"
  using main_returns_1_when_storage_not_claimed
      [where REG_valid = "\<lambda>r :: nat. r \<noteq> 0" and summary = "''knobs''" and PIN_Init = False
         and reg = 0 and lowReg = 7 and highReg = 0]
    main_returns_1_when_storage_not_claimed
      [where REG_valid = "\<lambda>r :: nat. r \<noteq> 0" and summary = "''knobs''" and PIN_Init = False
         and reg = 7 and lowReg = 7 and highReg = 7]
  by simp

end
